theory Spec2Isabelle
  imports Complex_Main "HOL-Library.Word" "HOL-Library.Sublist"
begin

section \<open>JavaScript strings\<close>

text \<open>
  A JavaScript string is a sequence of UTF-16 code units. The regular expression of
  \<open>sentenceCount\<close> has no \<open>u\<close> flag and \<open>trim\<close> looks at single code units of the
  Basic Multilingual Plane only, so the code unit is the right grain.
\<close>

type_synonym codeunit = "16 word"
type_synonym jsstring = "codeunit list"

text \<open>An ASCII literal of the source, as code units.\<close>

definition lit :: "string \<Rightarrow> jsstring" where
  "lit cs = map of_char cs"

text \<open>
  \<open>String.prototype.trim\<close> removes WhiteSpace and LineTerminator code points from both
  ends: TAB, LF, VT, FF, CR, SPACE, NBSP, U+1680, U+2000..U+200A, LS, PS, U+202F, U+205F,
  U+3000 and U+FEFF.
\<close>

definition is_js_space :: "codeunit \<Rightarrow> bool" where
  "is_js_space c \<longleftrightarrow>
     c \<in> set [0x0009, 0x000A, 0x000B, 0x000C, 0x000D, 0x0020, 0x00A0, 0x1680,
              0x2028, 0x2029, 0x202F, 0x205F, 0x3000, 0xFEFF]
     \<or> (0x2000 \<le> c \<and> c \<le> 0x200A)"

definition trimStart :: "jsstring \<Rightarrow> jsstring" where
  "trimStart s = dropWhile is_js_space s"

definition trimEnd :: "jsstring \<Rightarrow> jsstring" where
  "trimEnd s = rev (dropWhile is_js_space (rev s))"

definition trim :: "jsstring \<Rightarrow> jsstring" where
  "trim s = trimEnd (trimStart s)"

section \<open>Sentence counting\<close>

text \<open>
  \<^verbatim>\<open>const MAX_SENTENCES = 5;\<close>
  \<^verbatim>\<open>const sentenceCount = (t) => (t.match(/[\.!?...]|[|]/g) || []).length;\<close>
  where the two non-ASCII characters of the pattern are U+2026 (horizontal ellipsis) and
  U+0964 (devanagari danda). Every alternative of the pattern matches exactly one code
  unit, so the global match returns one entry per code unit of the class, and \<open>null\<close>
  (replaced by the empty array) when there is none.
\<close>

definition MAX_SENTENCES :: nat where
  "MAX_SENTENCES = 5"

definition is_terminator :: "codeunit \<Rightarrow> bool" where
  "is_terminator c \<longleftrightarrow> c \<in> set [0x002E, 0x0021, 0x003F, 0x2026, 0x0964]"

definition sentenceCount :: "jsstring \<Rightarrow> nat" where
  "sentenceCount t = length (filter is_terminator t)"

section \<open>The recognizer and the session state\<close>

text \<open>
  The globals \<open>listening\<close>, \<open>manualStop\<close>, \<open>reachedMax\<close> and the DOM elements the
  handlers read and write, as one record. A textarea is the string it holds, a button is
  its \<open>disabled\<close> flag, a status line is its text. \<open>recognizer_calls\<close> is the sequence of
  calls the handlers have made on \<open>recognition\<close>, oldest first. A textarea gives back the
  string that was stored in it; the line-break normalisation it applies on reading, which
  changes nothing in a string without U+000D, is not modelled.
\<close>

datatype rec_call = RecStart | RecStop

datatype js_exception = Thrown

record app_state =
  listening :: bool
  manualStop :: bool
  reachedMax :: bool
  knHeard :: jsstring
  enMeaning :: jsstring
  myReplyEn :: jsstring
  knReply :: jsstring
  statusLine :: jsstring
  errorLine :: jsstring
  btnStart_disabled :: bool
  btnStop_disabled :: bool
  btnSpeakAgain_disabled :: bool
  btnCopy_disabled :: bool
  recognizer_calls :: "rec_call list"

text \<open>
  A call \<open>recognition.start()\<close> or \<open>recognition.stop()\<close>. Whether the platform throws
  is an input (\<open>throws\<close>): it throws when the recognizer is in the wrong state, and with
  a TypeError when \<open>recognition\<close> is \<open>null\<close>. The call is recorded either way.
\<close>

definition recognizer_call ::
  "rec_call \<Rightarrow> bool \<Rightarrow> app_state \<Rightarrow> app_state \<times> js_exception option" where
  "recognizer_call c throws s =
     (s\<lparr>recognizer_calls := recognizer_calls s @ [c]\<rparr>,
      if throws then Some Thrown else None)"

text \<open>\<^verbatim>\<open>try { recognition.stop(); } catch {}\<close>: the exception, if any, is dropped.\<close>

definition try_recognizer_call :: "rec_call \<Rightarrow> bool \<Rightarrow> app_state \<Rightarrow> app_state" where
  "try_recognizer_call c throws s =
     (case recognizer_call c throws s of (s', _) \<Rightarrow> s')"

definition setStatus :: "jsstring \<Rightarrow> app_state \<Rightarrow> app_state" where
  "setStatus msg s = s\<lparr>statusLine := msg\<rparr>"

definition setError :: "jsstring \<Rightarrow> app_state \<Rightarrow> app_state" where
  "setError msg s = s\<lparr>errorLine := msg\<rparr>"

text \<open>The status text of \<open>setListening(true)\<close> ends in U+2026.\<close>

definition setListening :: "bool \<Rightarrow> app_state \<Rightarrow> app_state" where
  "setListening on s =
     setStatus (if on then lit ''Listening for Kannada'' @ [0x2026] else [])
       (s\<lparr>listening := on, btnStart_disabled := on, btnStop_disabled := \<not> on\<rparr>)"

subsection \<open>Recognizer events\<close>

text \<open>
  One entry of \<open>e.results\<close>: the transcript of its first alternative and its
  \<open>isFinal\<close> flag. The event carries the list and the index of the first new entry.
\<close>

record recognition_result =
  transcript :: jsstring
  isFinal :: bool

record result_event =
  resultIndex :: nat
  results :: "recognition_result list"

text \<open>
  The loop of \<open>onresult\<close>:
  \<^verbatim>\<open>for (let i = e.resultIndex; i < e.results.length; i++) {
    const t = e.results[i][0].transcript;
    if (e.results[i].isFinal) final += t; else interim += t + " ";
  }\<close>
  with the pair \<open>(interim, final)\<close> as the loop state.
\<close>

function onresult_loop ::
  "recognition_result list \<Rightarrow> nat \<Rightarrow> jsstring \<times> jsstring \<Rightarrow> jsstring \<times> jsstring" where
  "onresult_loop rs i (interim, final) =
     (if i < length rs then
        (let t = transcript (rs ! i) in
         if isFinal (rs ! i) then onresult_loop rs (Suc i) (interim, final @ t)
         else onresult_loop rs (Suc i) (interim @ t @ lit '' '', final))
      else (interim, final))"
  by pat_completeness auto
termination
  by (relation "measure (\<lambda>(rs, i, acc). length rs - i)") auto

text \<open>
  \<^verbatim>\<open>const existing = knHeard.value ? knHeard.value + " " : "";
  const combined = (existing + (final || interim)).trim();\<close>
\<close>

definition appended_text :: "result_event \<Rightarrow> jsstring" where
  "appended_text e =
     (case onresult_loop (results e) (resultIndex e) ([], []) of
        (interim, final) \<Rightarrow> if final \<noteq> [] then final else interim)"

definition combined_text :: "jsstring \<Rightarrow> result_event \<Rightarrow> jsstring" where
  "combined_text heard e =
     (let existing = (if heard \<noteq> [] then heard @ lit '' '' else [])
      in trim (existing @ appended_text e))"

text \<open>
  \<open>recognition.onresult\<close>. The handler has no test of \<open>listening\<close>. \<open>stop_throws\<close> says
  whether \<open>recognition.stop()\<close> throws, should the handler call it. The status text is
  the template \<^verbatim>\<open>`Captured ${MAX_SENTENCES} sentences. You can translate now.`\<close> with
  the constant filled in.
\<close>

definition onresult :: "result_event \<Rightarrow> bool \<Rightarrow> app_state \<Rightarrow> app_state" where
  "onresult e stop_throws s =
     (let combined = combined_text (knHeard s) e;
          s1 = s\<lparr>knHeard := combined\<rparr>
      in if sentenceCount combined \<ge> MAX_SENTENCES then
           setStatus (lit ''Captured 5 sentences. You can translate now.'')
             (setListening False
               (try_recognizer_call RecStop stop_throws (s1\<lparr>reachedMax := True\<rparr>)))
         else s1)"

definition onerror :: "jsstring \<Rightarrow> app_state \<Rightarrow> app_state" where
  "onerror err s =
     setListening False (setError (lit ''Speech recognition error: '' @ err) s)"

definition onend :: "bool \<Rightarrow> app_state \<Rightarrow> app_state" where
  "onend start_throws s =
     (if listening s \<and> \<not> manualStop s \<and> \<not> reachedMax s
      then try_recognizer_call RecStart start_throws s
      else s)"


subsection \<open>Button handlers\<close>

text \<open>
  The fields that Start and Reset both clear:
  \<^verbatim>\<open>knHeard.value = ""; enMeaning.value = ""; myReplyEn.value = ""; knReply.value = "";\<close>
\<close>

definition clear_fields :: "app_state \<Rightarrow> app_state" where
  "clear_fields s = s\<lparr>knHeard := [], enMeaning := [], myReplyEn := [], knReply := []\<rparr>"

text \<open>
  The click handler of \<open>btnStart\<close>. \<open>hasSTT\<close> is the platform's answer to the feature
  check, \<open>start_throws\<close> whether \<open>recognition.start()\<close> throws.
\<close>

definition btnStart_click :: "bool \<Rightarrow> bool \<Rightarrow> app_state \<Rightarrow> app_state" where
  "btnStart_click hasSTT start_throws s =
     (let s0 = setError [] s in
      if \<not> hasSTT then setError (lit ''Speech recognition not supported. Use Chrome.'') s0
      else
        (let s1 = (clear_fields (s0\<lparr>manualStop := False, reachedMax := False\<rparr>))
                    \<lparr>btnSpeakAgain_disabled := True, btnCopy_disabled := True\<rparr>
         in case recognizer_call RecStart start_throws s1 of
              (s2, None) \<Rightarrow> setListening True s2
            | (s2, Some _) \<Rightarrow>
                setError (lit ''Could not start mic. Allow mic permission and retry.'') s2))"

definition btnStop_click :: "bool \<Rightarrow> app_state \<Rightarrow> app_state" where
  "btnStop_click stop_throws s =
     setStatus (lit ''Processing'' @ [0x2026])
       (setListening False
         (try_recognizer_call RecStop stop_throws (s\<lparr>manualStop := True\<rparr>)))"

definition btnReset_click :: "bool \<Rightarrow> app_state \<Rightarrow> app_state" where
  "btnReset_click stop_throws s =
     (setError []
       (setStatus []
         (clear_fields
           (try_recognizer_call RecStop stop_throws (s\<lparr>manualStop := True\<rparr>)))))
       \<lparr>btnSpeakAgain_disabled := True, btnCopy_disabled := True\<rparr>"

subsection \<open>Translate handlers\<close>

text \<open>
  The two translate handlers are \<open>async\<close>: each runs up to its \<open>await\<close>, and the rest
  runs as a later task of the event loop, once the awaited call has settled. Other
  handlers may run in between. Each handler is therefore two steps. The first returns the
  request it issues, if any; the second takes the outcome of the awaited \<open>translate\<close>
  call: \<open>Inl\<close> when it threw, \<open>Inr\<close> with the text that the assignment to the textarea's
  \<open>value\<close> stores.
\<close>

record translation_request =
  q :: jsstring
  source :: jsstring
  target :: jsstring

definition btnTranslateToEn_click :: "app_state \<Rightarrow> app_state \<times> translation_request option" where
  "btnTranslateToEn_click s =
     (let s0 = setError [] s; query = trim (knHeard s0) in
      if query = [] then (setError (lit ''No Kannada captured. Try again.'') s0, None)
      else
        (setStatus (lit ''Translating Kannada '' @ [0x2192] @ lit '' English'' @ [0x2026]) s0,
         Some \<lparr>q = query, source = lit ''kn'', target = lit ''en''\<rparr>))"

definition btnTranslateToEn_resume :: "js_exception + jsstring \<Rightarrow> app_state \<Rightarrow> app_state" where
  "btnTranslateToEn_resume r s =
     (case r of
        Inr en \<Rightarrow> setStatus (lit ''Ready for your English reply.'') (s\<lparr>enMeaning := en\<rparr>)
      | Inl _ \<Rightarrow> setError (lit ''Translation failed. Please retry.'') s)"

definition btnTranslateToKn_click :: "app_state \<Rightarrow> app_state \<times> translation_request option" where
  "btnTranslateToKn_click s =
     (let s0 = setError [] s; query = trim (myReplyEn s0) in
      if query = [] then (setError (lit ''Type your reply in English first.'') s0, None)
      else
        (setStatus (lit ''Translating English '' @ [0x2192] @ lit '' Kannada'' @ [0x2026]) s0,
         Some \<lparr>q = query, source = lit ''en'', target = lit ''kn''\<rparr>))"

text \<open>
  After \<open>await translate(...)\<close>, up to \<open>await speakKannada(kn)\<close>: the reply is stored,
  the two buttons are enabled and playback is started.
\<close>

definition btnTranslateToKn_resume :: "js_exception + jsstring \<Rightarrow> app_state \<Rightarrow> app_state" where
  "btnTranslateToKn_resume r s =
     (case r of
        Inr kn \<Rightarrow>
          setStatus (lit ''Speaking Kannada response'' @ [0x2026])
            (s\<lparr>knReply := kn, btnSpeakAgain_disabled := False, btnCopy_disabled := False\<rparr>)
      | Inl _ \<Rightarrow> setError (lit ''Translation failed. Please retry.'') s)"

text \<open>After \<open>await speakKannada(kn)\<close> has settled; \<open>speech_failed\<close> when it rejected.\<close>

definition btnTranslateToKn_spoken :: "bool \<Rightarrow> app_state \<Rightarrow> app_state" where
  "btnTranslateToKn_spoken speech_failed s =
     setStatus (lit ''Done.'')
       (if speech_failed
        then setError (lit ''Speech failed. You can still copy the Kannada text.'') s
        else s)"

section \<open>Translation backends\<close>

text \<open>
  What \<open>res.json()\<close> can resolve to. A JSON number is the double the parser produced,
  kept as the real it denotes (an infinity as any real but zero): the code only tests
  whether it is zero. An object keeps its members in the order of the text.
\<close>

datatype json =
    JNull
  | JBool bool
  | JNum real
  | JStr jsstring
  | JArr "json list"
  | JObj "(jsstring \<times> json) list"

text \<open>The truthiness of a parsed value, as \<open>!x\<close> and \<open>||\<close> test it.\<close>

fun truthy :: "json \<Rightarrow> bool" where
  "truthy JNull = False"
| "truthy (JBool b) = b"
| "truthy (JNum r) = (r \<noteq> 0)"
| "truthy (JStr t) = (t \<noteq> [])"
| "truthy (JArr _) = True"
| "truthy (JObj _) = True"

text \<open>
  Reading the property \<open>translatedText\<close> or \<open>responseData\<close> of a parsed value that is
  neither \<open>null\<close> nor \<open>undefined\<close>: a member of an object (the last one of that name, as
  the parser keeps it), and \<open>undefined\<close> (\<open>None\<close>) on an object without it and on
  booleans, numbers, strings and arrays, which have no property of these names.
\<close>

fun get_member :: "jsstring \<Rightarrow> json \<Rightarrow> json option" where
  "get_member k (JObj members) = map_of (rev members) k"
| "get_member k _ = None"

text \<open>
  A response of \<open>fetch\<close>: its status and its body, \<open>None\<close> when the body is not JSON
  (\<open>res.json()\<close> rejects). \<open>res.ok\<close> is true for a status from 200 to 299.
\<close>

record response =
  status :: nat
  body :: "json option"

definition ok :: "response \<Rightarrow> bool" where
  "ok res \<longleftrightarrow> 200 \<le> status res \<and> status res \<le> 299"

datatype provider = LibreTranslate | MyMemory

text \<open>
  The network: what \<open>fetch\<close> gives for a request sent to a provider, \<open>None\<close> when the
  promise rejects (network failure).
\<close>

type_synonym network = "provider \<Rightarrow> translation_request \<Rightarrow> response option"

datatype translate_error =
    FetchRejected
  | JsonRejected
  | StatusError provider nat
  | BadResponse provider
  | URIError

text \<open>
  A backend's result: \<open>Inl\<close> the exception thrown, \<open>Inr\<close> the value returned.
  \<open>translateViaLibre\<close> posts the request as JSON, which every string allows.
\<close>

definition translateViaLibre ::
  "network \<Rightarrow> translation_request \<Rightarrow> translate_error + json" where
  "translateViaLibre net req =
     (case net LibreTranslate req of
        None \<Rightarrow> Inl FetchRejected
      | Some res \<Rightarrow>
          if \<not> ok res then Inl (StatusError LibreTranslate (status res))
          else
            (case body res of
               None \<Rightarrow> Inl JsonRejected
             | Some data \<Rightarrow>
                 if \<not> truthy data then Inl (BadResponse LibreTranslate)
                 else
                   (case get_member (lit ''translatedText'') data of
                      None \<Rightarrow> Inl (BadResponse LibreTranslate)
                    | Some text \<Rightarrow>
                        if \<not> truthy text then Inl (BadResponse LibreTranslate)
                        else Inr text)))"

text \<open>
  \<open>translateViaMyMemory\<close> builds its URL with \<open>encodeURIComponent\<close>, which throws a
  URIError on a string that is not well-formed UTF-16: a high surrogate (U+D800 to
  U+DBFF) not followed by a low one (U+DC00 to U+DFFF), or a low one not preceded by a
  high one. The request is then never sent.
\<close>

fun well_formed :: "jsstring \<Rightarrow> bool" where
  "well_formed [] = True"
| "well_formed [c] = (\<not> (0xD800 \<le> c \<and> c \<le> 0xDFFF))"
| "well_formed (c # d # s) =
     (if 0xD800 \<le> c \<and> c \<le> 0xDBFF then 0xDC00 \<le> d \<and> d \<le> 0xDFFF \<and> well_formed s
      else if 0xDC00 \<le> c \<and> c \<le> 0xDFFF then False
      else well_formed (d # s))"

definition encodable :: "translation_request \<Rightarrow> bool" where
  "encodable req \<longleftrightarrow> well_formed (q req) \<and> well_formed (source req) \<and> well_formed (target req)"

text \<open>\<^verbatim>\<open>data?.responseData?.translatedText\<close>: \<open>None\<close> is \<open>undefined\<close>.\<close>

definition best_of :: "json \<Rightarrow> json option" where
  "best_of data =
     (if data = JNull then None
      else
        (case get_member (lit ''responseData'') data of
           None \<Rightarrow> None
         | Some rd \<Rightarrow> if rd = JNull then None else get_member (lit ''translatedText'') rd))"

definition translateViaMyMemory ::
  "network \<Rightarrow> translation_request \<Rightarrow> translate_error + json" where
  "translateViaMyMemory net req =
     (if \<not> encodable req then Inl URIError
      else
        (case net MyMemory req of
           None \<Rightarrow> Inl FetchRejected
         | Some res \<Rightarrow>
             if \<not> ok res then Inl (StatusError MyMemory (status res))
             else
               (case body res of
                  None \<Rightarrow> Inl JsonRejected
                | Some data \<Rightarrow>
                    (case best_of data of
                       None \<Rightarrow> Inl (BadResponse MyMemory)
                     | Some best \<Rightarrow>
                         if \<not> truthy best then Inl (BadResponse MyMemory) else Inr best))))"

text \<open>
  \<^verbatim>\<open>try { return await translateViaLibre({ q, source, target }); }
  catch (e) { console.warn(...); return await translateViaMyMemory({ q, source, target }); }\<close>
  The result comes with the calls made to the backends, each with its argument, in
  the order they were made.
\<close>

definition translate ::
  "network \<Rightarrow> translation_request \<Rightarrow>
     (provider \<times> translation_request) list \<times> (translate_error + json)" where
  "translate net req =
     (case translateViaLibre net req of
        Inr text \<Rightarrow> ([(LibreTranslate, req)], Inr text)
      | Inl e \<Rightarrow>
          ([(LibreTranslate, req), (MyMemory, req)], translateViaMyMemory net req))"

text \<open>When LibreTranslate's answer is accepted, in the terms of the network's response.\<close>

definition libre_accepts :: "network \<Rightarrow> translation_request \<Rightarrow> json \<Rightarrow> bool" where
  "libre_accepts net req text \<longleftrightarrow>
     (case net LibreTranslate req of
        None \<Rightarrow> False
      | Some res \<Rightarrow>
          ok res \<and>
          (case body res of
             None \<Rightarrow> False
           | Some data \<Rightarrow>
               truthy data \<and> get_member (lit ''translatedText'') data = Some text \<and> truthy text))"

section \<open>Voice selection\<close>

text \<open>
  A voice of the platform's catalogue. \<open>lang\<close> is \<open>None\<close> when the property is missing
  or not a string; \<open>(v.lang || "")\<close> then gives the empty string, as it does for an
  empty tag.
\<close>

record voice =
  voiceURI :: jsstring
  lang :: "jsstring option"

definition lang_or_empty :: "voice \<Rightarrow> jsstring" where
  "lang_or_empty v = (case lang v of None \<Rightarrow> [] | Some l \<Rightarrow> l)"

text \<open>\<open>String.prototype.startsWith\<close> and \<open>String.prototype.includes\<close>.\<close>

definition startsWith :: "jsstring \<Rightarrow> jsstring \<Rightarrow> bool" where
  "startsWith s p \<longleftrightarrow> take (length p) s = p"

fun includes_js :: "jsstring \<Rightarrow> jsstring \<Rightarrow> bool" where
  "includes_js [] p = (p = [])"
| "includes_js (c # s) p = (startsWith (c # s) p \<or> includes_js s p)"

text \<open>
  \<open>pickKannadaVoice\<close>, over the list that \<open>speechSynthesis.getVoices()\<close> returns.
  \<open>String.prototype.toLowerCase\<close> follows the Unicode case tables; it is a parameter
  here (\<open>toLowerCase\<close>). \<open>a || b\<close> on a voice or \<open>undefined\<close> is the first that is not
  \<open>undefined\<close>; the final \<open>null\<close> is \<open>None\<close>.
\<close>

definition pickKannadaVoice :: "(jsstring \<Rightarrow> jsstring) \<Rightarrow> voice list \<Rightarrow> voice option" where
  "pickKannadaVoice toLowerCase voices =
     (let byLang = (\<lambda>l. find (\<lambda>v. toLowerCase (lang_or_empty v) = l) voices) in
      case byLang (lit ''kn-in'') of
        Some v \<Rightarrow> Some v
      | None \<Rightarrow>
          (case find (\<lambda>v. startsWith (toLowerCase (lang_or_empty v)) (lit ''kn'')) voices of
             Some v \<Rightarrow> Some v
           | None \<Rightarrow>
               (case find (\<lambda>v. includes_js (toLowerCase (lang_or_empty v)) (lit ''en-in'')) voices of
                  Some v \<Rightarrow> Some v
                | None \<Rightarrow> (case voices of [] \<Rightarrow> None | v # _ \<Rightarrow> Some v))))"

text \<open>
  \<open>toLowerCase\<close> on a string of ASCII code units: the letters A to Z move to a to z and
  nothing else changes. It stands for the platform's function at ASCII language tags.
\<close>

definition ascii_toLowerCase :: "jsstring \<Rightarrow> jsstring" where
  "ascii_toLowerCase s = map (\<lambda>c. if 0x41 \<le> c \<and> c \<le> 0x5A then c + 0x20 else c) s"

text \<open>\<open>v\<close> is the first voice of the list that satisfies \<open>P\<close>.\<close>

definition first_voice_with :: "(voice \<Rightarrow> bool) \<Rightarrow> voice list \<Rightarrow> voice \<Rightarrow> bool" where
  "first_voice_with P voices v \<longleftrightarrow>
     (\<exists>i < length voices. voices ! i = v \<and> P v \<and> (\<forall>j < i. \<not> P (voices ! j)))"

section \<open>Notions used to state the properties\<close>

text \<open>
  The new results of an event, the concatenation of its final transcripts, and the
  concatenation of its interim transcripts, each followed by a space.
\<close>

definition batch :: "result_event \<Rightarrow> recognition_result list" where
  "batch e = drop (resultIndex e) (results e)"

definition final_text :: "result_event \<Rightarrow> jsstring" where
  "final_text e = concat (map transcript (filter isFinal (batch e)))"

definition interim_text :: "result_event \<Rightarrow> jsstring" where
  "interim_text e =
     concat (map (\<lambda>r. transcript r @ lit '' '') (filter (\<lambda>r. \<not> isFinal r) (batch e)))"

text \<open>When MyMemory's answer is accepted, as \<open>libre_accepts\<close> for LibreTranslate.\<close>

definition mymemory_accepts :: "network \<Rightarrow> translation_request \<Rightarrow> json \<Rightarrow> bool" where
  "mymemory_accepts net req text \<longleftrightarrow>
     encodable req \<and>
     (case net MyMemory req of
        None \<Rightarrow> False
      | Some res \<Rightarrow>
          ok res \<and>
          (case body res of
             None \<Rightarrow> False
           | Some data \<Rightarrow> best_of data = Some text \<and> truthy text))"

text \<open>The three tests of \<open>pickKannadaVoice\<close>, by name.\<close>

definition tag_is_kn_in :: "(jsstring \<Rightarrow> jsstring) \<Rightarrow> voice \<Rightarrow> bool" where
  "tag_is_kn_in toLowerCase v \<longleftrightarrow> toLowerCase (lang_or_empty v) = lit ''kn-in''"

definition tag_starts_kn :: "(jsstring \<Rightarrow> jsstring) \<Rightarrow> voice \<Rightarrow> bool" where
  "tag_starts_kn toLowerCase v \<longleftrightarrow> startsWith (toLowerCase (lang_or_empty v)) (lit ''kn'')"

definition tag_includes_en_in :: "(jsstring \<Rightarrow> jsstring) \<Rightarrow> voice \<Rightarrow> bool" where
  "tag_includes_en_in toLowerCase v \<longleftrightarrow>
     includes_js (toLowerCase (lang_or_empty v)) (lit ''en-in'')"

subsection \<open>Concrete states and inputs\<close>

text \<open>
  The page after loading, before any click: the three flags as the script initialises
  them, no recognizer call made, empty fields; Start enabled and the other buttons
  disabled.
\<close>

definition fresh_state :: app_state where
  "fresh_state =
     \<lparr>listening = False, manualStop = False, reachedMax = False,
      knHeard = [], enMeaning = [], myReplyEn = [], knReply = [],
      statusLine = [], errorLine = [],
      btnStart_disabled = False, btnStop_disabled = True,
      btnSpeakAgain_disabled = True, btnCopy_disabled = True,
      recognizer_calls = []\<rparr>"

text \<open>Listening: Start was clicked on the fresh page and the recognizer started.\<close>

definition listening_state :: app_state where
  "listening_state = btnStart_click True False fresh_state"

text \<open>An event with one new result.\<close>

definition single_result :: "string \<Rightarrow> bool \<Rightarrow> result_event" where
  "single_result cs fin =
     \<lparr>resultIndex = 0, results = [\<lparr>transcript = lit cs, isFinal = fin\<rparr>]\<rparr>"

text \<open>A voice with the given ASCII name and language tag.\<close>

definition voice_of :: "string \<Rightarrow> string \<Rightarrow> voice" where
  "voice_of name tag = \<lparr>voiceURI = lit name, lang = Some (lit tag)\<rparr>"

text \<open>A network on which both providers answer with the given responses.\<close>

definition net_of :: "response option \<Rightarrow> response option \<Rightarrow> network" where
  "net_of libre mm = (\<lambda>p req. case p of LibreTranslate \<Rightarrow> libre | MyMemory \<Rightarrow> mm)"

text \<open>
  An event whose new results start at index 1: two final results around an interim one.
\<close>

definition mixed_batch :: result_event where
  "mixed_batch =
     \<lparr>resultIndex = 1,
      results = [\<lparr>transcript = lit ''old'', isFinal = True\<rparr>,
                 \<lparr>transcript = lit ''b'', isFinal = True\<rparr>,
                 \<lparr>transcript = lit ''c'', isFinal = False\<rparr>,
                 \<lparr>transcript = lit ''d '', isFinal = True\<rparr>]\<rparr>"

text \<open>The English reply has been typed, nothing else has happened.\<close>

definition reply_typed :: app_state where
  "reply_typed = fresh_state\<lparr>myReplyEn := lit ''thanks''\<rparr>"


text \<open>
  One sentence was captured, Stop was clicked, and its translation is shown.
\<close>

definition stopped_with_text :: app_state where
  "stopped_with_text =
     (btnStop_click False
       (onresult (single_result ''namaskara.'' True) False listening_state))
     \<lparr>enMeaning := lit ''hello.''\<rparr>"

text \<open>
  A request, and responses of the two providers: an accepted answer of each, a server
  error, and an answer of MyMemory whose text is empty.
\<close>

definition reply_request :: translation_request where
  "reply_request = \<lparr>q = lit ''hello'', source = lit ''en'', target = lit ''kn''\<rparr>"

definition libre_good :: response where
  "libre_good =
     \<lparr>status = 200, body = Some (JObj [(lit ''translatedText'', JStr (lit ''namaskara''))])\<rparr>"

definition server_error :: response where
  "server_error = \<lparr>status = 500, body = Some (JObj [(lit ''error'', JStr (lit ''down''))])\<rparr>"

definition mymemory_good :: response where
  "mymemory_good =
     \<lparr>status = 200,
      body = Some (JObj [(lit ''responseData'',
                          JObj [(lit ''translatedText'', JStr (lit ''halo''))])])\<rparr>"

definition mymemory_empty :: response where
  "mymemory_empty =
     \<lparr>status = 200,
      body = Some (JObj [(lit ''responseData'', JObj [(lit ''translatedText'', JStr [])])])\<rparr>"


text \<open>
  Answers of LibreTranslate whose \<open>translatedText\<close> is not text: \<open>true\<close>, and an empty
  array.
\<close>

definition libre_flag :: response where
  "libre_flag = \<lparr>status = 200, body = Some (JObj [(lit ''translatedText'', JBool True)])\<rparr>"

definition libre_list :: response where
  "libre_list = \<lparr>status = 200, body = Some (JObj [(lit ''translatedText'', JArr [])])\<rparr>"

text \<open>A catalogue with an English voice first and three Kannada voices.\<close>

definition catalogue :: "voice list" where
  "catalogue =
     [voice_of ''Ravi'' ''en-IN'', voice_of ''Kn short'' ''kn'',
      voice_of ''Kn upper'' ''KN-in'', voice_of ''Kn'' ''kn-IN'']"

section \<open>Basic facts about strings\<close>

lemma space_not_terminator: "is_js_space c \<Longrightarrow> \<not> is_terminator c"
  unfolding is_js_space_def is_terminator_def by auto

lemma filter_dropWhile_disjoint:
  "(\<And>x. Q x \<Longrightarrow> \<not> P x) \<Longrightarrow> filter P (dropWhile Q xs) = filter P xs"
  by (induction xs) auto

lemma sentenceCount_append: "sentenceCount (s @ t) = sentenceCount s + sentenceCount t"
  by (simp add: sentenceCount_def)

lemma sentenceCount_trimStart: "sentenceCount (trimStart s) = sentenceCount s"
  unfolding sentenceCount_def trimStart_def
  by (simp add: filter_dropWhile_disjoint space_not_terminator)

lemma sentenceCount_rev: "sentenceCount (rev s) = sentenceCount s"
  by (simp add: sentenceCount_def flip: rev_filter)

lemma sentenceCount_trimEnd: "sentenceCount (trimEnd s) = sentenceCount s"
proof -
  have "sentenceCount (trimEnd s) = sentenceCount (dropWhile is_js_space (rev s))"
    unfolding trimEnd_def by (rule sentenceCount_rev)
  also have "\<dots> = sentenceCount (rev s)"
    unfolding sentenceCount_def
    by (simp add: filter_dropWhile_disjoint space_not_terminator)
  finally show ?thesis by (simp add: sentenceCount_rev)
qed

lemma sentenceCount_trim: "sentenceCount (trim s) = sentenceCount s"
  by (simp add: trim_def sentenceCount_trimEnd sentenceCount_trimStart)

section \<open>The result handler\<close>

lemma onresult_loop_eq:
  "onresult_loop rs i (interim, final) =
     (interim @ concat (map (\<lambda>r. transcript r @ lit '' '') (filter (\<lambda>r. \<not> isFinal r) (drop i rs))),
      final @ concat (map transcript (filter isFinal (drop i rs))))"
proof (induction rs i "(interim, final)" arbitrary: interim final rule: onresult_loop.induct)
  case (1 rs i interim final)
  show ?case
  proof (cases "i < length rs")
    case True
    then have d: "drop i rs = rs ! i # drop (Suc i) rs"
      by (simp add: Cons_nth_drop_Suc)
    show ?thesis
    proof (cases "isFinal (rs ! i)")
      case True
      with \<open>i < length rs\<close> "1.hyps"(1)[OF \<open>i < length rs\<close> refl True] d show ?thesis
        by (simp del: onresult_loop.simps add: onresult_loop.simps[of rs i])
    next
      case False
      with \<open>i < length rs\<close> "1.hyps"(2)[OF \<open>i < length rs\<close> refl False] d show ?thesis
        by (simp del: onresult_loop.simps add: onresult_loop.simps[of rs i])
    qed
  next
    case False
    then show ?thesis by simp
  qed
qed

lemma onresult_loop_batch:
  "onresult_loop (results e) (resultIndex e) ([], []) = (interim_text e, final_text e)"
  by (simp add: onresult_loop_eq final_text_def interim_text_def batch_def
        del: onresult_loop.simps)

lemma appended_text_eq:
  "appended_text e = (if final_text e \<noteq> [] then final_text e else interim_text e)"
  unfolding appended_text_def onresult_loop_batch by simp

lemma knHeard_onresult: "knHeard (onresult e t s) = combined_text (knHeard s) e"
  by (simp add: onresult_def Let_def setStatus_def setListening_def try_recognizer_call_def
        recognizer_call_def)

lemma sentenceCount_space: "sentenceCount (lit '' '') = 0"
  by (simp add: sentenceCount_def lit_def is_terminator_def)

lemma sentenceCount_combined:
  "sentenceCount (combined_text heard e) = sentenceCount heard + sentenceCount (appended_text e)"
  by (simp add: combined_text_def sentenceCount_trim sentenceCount_append sentenceCount_space)

lemma dropWhile_same_length: "length (dropWhile P xs) = length xs \<Longrightarrow> dropWhile P xs = xs"
  by (metis append_self_conv2 length_0_conv length_append add_cancel_right_left
        takeWhile_dropWhile_id add.commute)

lemma length_trimEnd: "length (trimEnd s) \<le> length s"
  by (simp add: trimEnd_def) (metis length_dropWhile_le length_rev)

lemma trim_fixed_ends:
  assumes "trim h = h" and "h \<noteq> []"
  shows "\<not> is_js_space (hd h) \<and> \<not> is_js_space (last h)"
proof -
  have "length h = length (trimEnd (trimStart h))"
    using assms(1) by (simp add: trim_def)
  also have "\<dots> \<le> length (trimStart h)" by (rule length_trimEnd)
  finally have "length (dropWhile is_js_space h) = length h"
    using length_dropWhile_le[of is_js_space h] by (simp add: trimStart_def)
  then have s: "trimStart h = h"
    by (simp add: trimStart_def dropWhile_same_length)
  then have a: "\<not> is_js_space (hd h)"
    using assms(2) by (simp add: trimStart_def dropWhile_eq_self_iff)
  from s assms(1) have "trimEnd h = h" by (simp add: trim_def)
  then have "dropWhile is_js_space (rev h) = rev h"
    by (metis trimEnd_def rev_rev_ident)
  then have "\<not> is_js_space (hd (rev h))"
    using assms(2) by (simp add: dropWhile_eq_self_iff)
  then have "\<not> is_js_space (last h)"
    using assms(2) by (simp add: hd_rev)
  with a show ?thesis by simp
qed

lemma trim_append_fixed:
  assumes "trim h = h" and "h \<noteq> []"
  shows "trim (h @ x) = h @ trimEnd x"
proof -
  from trim_fixed_ends[OF assms] have a: "\<not> is_js_space (hd h)" and b: "\<not> is_js_space (last h)"
    by simp_all
  have s: "trimStart (h @ x) = h @ x"
    using a assms(2) by (simp add: trimStart_def dropWhile_eq_self_iff)
  have r: "dropWhile is_js_space (rev h) = rev h"
    using b assms(2) by (simp add: dropWhile_eq_self_iff hd_rev)
  have "trimEnd (h @ x) = h @ trimEnd x"
  proof (cases "\<forall>c \<in> set (rev x). is_js_space c")
    case True
    then have "dropWhile is_js_space (rev x) = []" by simp
    moreover from True have "dropWhile is_js_space (rev x @ rev h) = dropWhile is_js_space (rev h)"
      by (intro dropWhile_append2) simp
    ultimately show ?thesis using r by (simp add: trimEnd_def)
  next
    case False
    then have "dropWhile is_js_space (rev x @ rev h) = dropWhile is_js_space (rev x) @ rev h"
      by (auto simp: dropWhile_append1)
    then show ?thesis by (simp add: trimEnd_def)
  qed
  with s show ?thesis by (simp add: trim_def)
qed

lemma trim_idem: "trim (trim s) = trim s"
proof -
  have a: "trimStart (trimStart s) = trimStart s"
    by (simp add: trimStart_def)
  have b: "trimEnd (trimEnd t) = trimEnd t" for t
    by (simp add: trimEnd_def)
  have c: "trimStart (trimEnd t) = trimEnd t" if "trimStart t = t" for t
  proof (cases "trimEnd t = []")
    case True
    then show ?thesis by (simp add: trimStart_def)
  next
    case False
    then have "t \<noteq> []" by (auto simp: trimEnd_def)
    with that have "\<not> is_js_space (hd t)" by (simp add: trimStart_def dropWhile_eq_self_iff)
    moreover have "hd (trimEnd t) = hd t"
      using False unfolding trimEnd_def
      by (metis append_Nil2 hd_append2 rev_append rev_rev_ident takeWhile_dropWhile_id rev_is_Nil_conv)
    ultimately show ?thesis using False by (simp add: trimStart_def dropWhile_eq_self_iff)
  qed
  show ?thesis
    by (simp add: trim_def c[OF a] b)
qed



section \<open>Sentence Count under appending\<close>




section \<open>The two branches of the result handler\<close>

lemma onresult_at_limit:
  assumes "MAX_SENTENCES \<le> sentenceCount (combined_text (knHeard s) e)"
  shows "onresult e t s =
    s\<lparr>listening := False, reachedMax := True, knHeard := combined_text (knHeard s) e,
      statusLine := lit ''Captured 5 sentences. You can translate now.'',
      btnStart_disabled := False, btnStop_disabled := True,
      recognizer_calls := recognizer_calls s @ [RecStop]\<rparr>"
  using assms
  by (simp add: onresult_def Let_def setStatus_def setListening_def try_recognizer_call_def
        recognizer_call_def)

lemma onresult_below_limit:
  assumes "sentenceCount (combined_text (knHeard s) e) < MAX_SENTENCES"
  shows "onresult e t s = s\<lparr>knHeard := combined_text (knHeard s) e\<rparr>"
  using assms by (simp add: onresult_def Let_def)



section \<open>What a result event appends\<close>

text \<open>
  Claim C1, as the code has it. A result event, in any state, replaces the buffer
  \<open>knHeard\<close> by the trimmed concatenation of the old buffer, a single space when the old
  buffer is not empty, and the text of the batch: its final transcripts concatenated in
  recognizer order when that concatenation is not empty, and otherwise its interim
  transcripts, each followed by a space. A buffer without white space at its ends, as
  every result event leaves it, is kept as a prefix of the new buffer: the text before
  is not rewritten, and the new text follows it after the single space.
\<close>

theorem onresult_appends:
  "knHeard (onresult e t s) =
     trim ((if knHeard s \<noteq> [] then knHeard s @ lit '' '' else []) @
           (if final_text e \<noteq> [] then final_text e else interim_text e))
   \<and> (trim (knHeard s) = knHeard s \<longrightarrow> prefix (knHeard s) (knHeard (onresult e t s)))
   \<and> (trim (knHeard s) = knHeard s \<and> knHeard s \<noteq> [] \<longrightarrow>
        knHeard (onresult e t s) =
          knHeard s @ trimEnd (lit '' '' @
            (if final_text e \<noteq> [] then final_text e else interim_text e)))
   \<and> trim (knHeard (onresult e t s)) = knHeard (onresult e t s)"
proof -
  let ?x = "if final_text e \<noteq> [] then final_text e else interim_text e"
  have a: "knHeard (onresult e t s) =
     trim ((if knHeard s \<noteq> [] then knHeard s @ lit '' '' else []) @ ?x)"
    by (simp add: knHeard_onresult combined_text_def appended_text_eq)
  have c: "knHeard (onresult e t s) = knHeard s @ trimEnd (lit '' '' @ ?x)"
    if "trim (knHeard s) = knHeard s" and "knHeard s \<noteq> []"
    using trim_append_fixed[OF that, of "lit '' '' @ ?x"] that(2) by (simp add: a)
  have b: "prefix (knHeard s) (knHeard (onresult e t s))" if "trim (knHeard s) = knHeard s"
  proof (cases "knHeard s = []")
    case True
    then show ?thesis by simp
  next
    case False
    from c[OF that False] show ?thesis by simp
  qed
  have d: "trim (knHeard (onresult e t s)) = knHeard (onresult e t s)"
    by (simp add: knHeard_onresult combined_text_def trim_idem)
  from a b c d show ?thesis by blast
qed

theorem onresult_appends_witness:
  "trim (knHeard (fresh_state\<lparr>knHeard := lit ''a''\<rparr>)) = knHeard (fresh_state\<lparr>knHeard := lit ''a''\<rparr>)
   \<and> knHeard (fresh_state\<lparr>knHeard := lit ''a''\<rparr>) \<noteq> []
   \<and> final_text mixed_batch = lit ''bd ''
   \<and> knHeard (onresult mixed_batch False (fresh_state\<lparr>knHeard := lit ''a''\<rparr>)) = lit ''a bd''
   \<and> prefix (knHeard (fresh_state\<lparr>knHeard := lit ''a''\<rparr>))
        (knHeard (onresult mixed_batch False (fresh_state\<lparr>knHeard := lit ''a''\<rparr>)))"
proof -
  let ?s = "fresh_state\<lparr>knHeard := lit ''a''\<rparr>"
  have h1: "trim (knHeard ?s) = knHeard ?s" by code_simp
  have h2: "knHeard ?s \<noteq> []" by code_simp
  have f: "final_text mixed_batch = lit ''bd ''" by code_simp
  have n: "(if final_text mixed_batch \<noteq> [] then final_text mixed_batch
            else interim_text mixed_batch) = lit ''bd ''" by code_simp
  have v: "knHeard ?s @ trimEnd (lit '' '' @ lit ''bd '') = lit ''a bd''" by code_simp
  from onresult_appends[of mixed_batch False ?s] h1 h2
  have "knHeard (onresult mixed_batch False ?s) =
          knHeard ?s @ trimEnd (lit '' '' @
            (if final_text mixed_batch \<noteq> [] then final_text mixed_batch
             else interim_text mixed_batch))"
    and p: "prefix (knHeard ?s) (knHeard (onresult mixed_batch False ?s))"
    by blast+
  then have "knHeard (onresult mixed_batch False ?s) = lit ''a bd''"
    by (simp only: n v)
  with h1 h2 f p show ?thesis by blast
qed


text \<open>
  The claim as stated fails: a batch of one interim result and no final result, delivered
  while listening, is appended to the empty buffer, and delivered again it is appended a
  second time.
\<close>

theorem interim_appended_counterexample:
  "filter isFinal (batch (single_result ''ab'' False)) = []
   \<and> knHeard listening_state = []
   \<and> knHeard (onresult (single_result ''ab'' False) False listening_state) = lit ''ab''
   \<and> knHeard (onresult (single_result ''ab'' False) False
        (onresult (single_result ''ab'' False) False listening_state)) = lit ''ab ab''"
  by code_simp


section \<open>Batches without a final result\<close>

text \<open>
  Claim C2, as the code has it. When no new result of the batch is final, the interim
  transcripts, each followed by a space, are appended to the buffer, and the handler
  stops the capture exactly when the Sentence Count of the old buffer plus that of the
  interim text reaches \<open>MAX_SENTENCES\<close>: it then sets \<open>reachedMax\<close>, calls
  \<open>recognition.stop()\<close> and clears \<open>listening\<close>. Sentence terminators of interim text
  count as those of final text do.
\<close>

theorem interim_only_batch:
  assumes "\<forall>r \<in> set (batch e). \<not> isFinal r"
  shows "knHeard (onresult e t s) =
           trim ((if knHeard s \<noteq> [] then knHeard s @ lit '' '' else []) @ interim_text e)
    \<and> (reachedMax (onresult e t s) \<longleftrightarrow>
         reachedMax s \<or> MAX_SENTENCES \<le> sentenceCount (knHeard s) + sentenceCount (interim_text e))
    \<and> (listening (onresult e t s) \<longleftrightarrow>
         listening s \<and> sentenceCount (knHeard s) + sentenceCount (interim_text e) < MAX_SENTENCES)
    \<and> recognizer_calls (onresult e t s) =
         recognizer_calls s @
           (if MAX_SENTENCES \<le> sentenceCount (knHeard s) + sentenceCount (interim_text e)
            then [RecStop] else [])"
proof -
  from assms have "filter isFinal (batch e) = []" by (simp add: filter_empty_conv)
  then have f: "final_text e = []" by (simp add: final_text_def)
  then have x: "appended_text e = interim_text e" by (simp add: appended_text_eq)
  have k: "knHeard (onresult e t s) =
           trim ((if knHeard s \<noteq> [] then knHeard s @ lit '' '' else []) @ interim_text e)"
    by (simp add: knHeard_onresult combined_text_def x)
  have n: "sentenceCount (combined_text (knHeard s) e) =
       sentenceCount (knHeard s) + sentenceCount (interim_text e)"
    by (simp add: sentenceCount_combined x)
  show ?thesis
  proof (cases "MAX_SENTENCES \<le> sentenceCount (knHeard s) + sentenceCount (interim_text e)")
    case True
    then have "MAX_SENTENCES \<le> sentenceCount (combined_text (knHeard s) e)" by (simp add: n)
    from onresult_at_limit[OF this, of t] True k show ?thesis by simp
  next
    case False
    then have "sentenceCount (combined_text (knHeard s) e) < MAX_SENTENCES" by (simp add: n)
    from onresult_below_limit[OF this, of t] False k show ?thesis by simp
  qed
qed

theorem interim_only_batch_witness:
  "filter isFinal (batch (single_result ''a. b?'' False)) = []
   \<and> interim_text (single_result ''a. b?'' False) = lit ''a. b? ''
   \<and> knHeard (onresult (single_result ''a. b?'' False) False
        (listening_state\<lparr>knHeard := lit ''x! y! z!''\<rparr>)) = lit ''x! y! z! a. b?''
   \<and> reachedMax (onresult (single_result ''a. b?'' False) False
        (listening_state\<lparr>knHeard := lit ''x! y! z!''\<rparr>))
   \<and> \<not> listening (onresult (single_result ''a. b?'' False) False
        (listening_state\<lparr>knHeard := lit ''x! y! z!''\<rparr>))
   \<and> recognizer_calls (onresult (single_result ''a. b?'' False) False
        (listening_state\<lparr>knHeard := lit ''x! y! z!''\<rparr>)) = [RecStart, RecStop]"
proof -
  let ?e = "single_result ''a. b?'' False"
  let ?s = "listening_state\<lparr>knHeard := lit ''x! y! z!''\<rparr>"
  have f: "filter isFinal (batch ?e) = []" by code_simp
  then have h: "\<forall>r \<in> set (batch ?e). \<not> isFinal r" by (simp add: filter_empty_conv)
  have i: "interim_text ?e = lit ''a. b? ''" by code_simp
  have v: "trim ((if knHeard ?s \<noteq> [] then knHeard ?s @ lit '' '' else []) @ lit ''a. b? '')
      = lit ''x! y! z! a. b?''" by code_simp
  have c: "sentenceCount (knHeard ?s) + sentenceCount (lit ''a. b? '') = 5" by code_simp
  have r: "recognizer_calls ?s = [RecStart]" by code_simp
  have l: "listening ?s" "\<not> reachedMax ?s" by code_simp+
  from interim_only_batch[OF h, of False ?s] f show ?thesis
    unfolding i v c r by (simp add: MAX_SENTENCES_def)
qed


text \<open>
  The claim as stated fails: one interim result with five terminators, and no final
  result, fills the buffer and stops the capture.
\<close>

theorem interim_stop_counterexample:
  "filter isFinal (batch (single_result ''a. b. c. d. e.'' False)) = []
   \<and> listening listening_state \<and> \<not> reachedMax listening_state
   \<and> reachedMax (onresult (single_result ''a. b. c. d. e.'' False) False listening_state)
   \<and> \<not> listening (onresult (single_result ''a. b. c. d. e.'' False) False listening_state)
   \<and> recognizer_calls (onresult (single_result ''a. b. c. d. e.'' False) False listening_state)
       = [RecStart, RecStop]
   \<and> knHeard (onresult (single_result ''a. b. c. d. e.'' False) False listening_state)
       = lit ''a. b. c. d. e.''"
  by code_simp

section \<open>Reaching the sentence limit\<close>






section \<open>Restart on the end event\<close>

text \<open>
  Claim C5. On the recognizer's end event the handler calls \<open>recognition.start()\<close> when
  \<open>listening\<close> is set and neither \<open>manualStop\<close> nor \<open>reachedMax\<close> is, and changes
  nothing else; otherwise it does nothing. Whether the call throws makes no difference
  to the state the handler leaves: the exception is swallowed.
\<close>

theorem onend_restart:
  "(listening s \<and> \<not> manualStop s \<and> \<not> reachedMax s \<longrightarrow>
      onend start_throws s = s\<lparr>recognizer_calls := recognizer_calls s @ [RecStart]\<rparr>)
   \<and> (\<not> listening s \<or> manualStop s \<or> reachedMax s \<longrightarrow> onend start_throws s = s)
   \<and> onend True s = onend False s"
  by (simp add: onend_def try_recognizer_call_def recognizer_call_def)

theorem onend_restart_witness:
  "listening listening_state \<and> \<not> manualStop listening_state \<and> \<not> reachedMax listening_state
   \<and> recognizer_calls (onend True listening_state) = [RecStart, RecStart]
   \<and> manualStop (btnStop_click False listening_state)
   \<and> recognizer_calls (onend False (btnStop_click False listening_state)) = [RecStart, RecStop]
   \<and> reachedMax (onresult (single_result ''a. b. c. d. e.'' True) False listening_state)
   \<and> recognizer_calls (onend False
        (onresult (single_result ''a. b. c. d. e.'' True) False listening_state))
       = [RecStart, RecStop]"
proof -
  let ?st = "btnStop_click False listening_state"
  let ?lim = "onresult (single_result ''a. b. c. d. e.'' True) False listening_state"
  have h: "listening listening_state \<and> \<not> manualStop listening_state \<and> \<not> reachedMax listening_state"
    by code_simp
  have r: "recognizer_calls listening_state = [RecStart]" by code_simp
  have m: "manualStop ?st" by code_simp
  have rs: "recognizer_calls ?st = [RecStart, RecStop]" by code_simp
  have x: "reachedMax ?lim" by code_simp
  have rx: "recognizer_calls ?lim = [RecStart, RecStop]" by code_simp
  from onend_restart[of listening_state True] h
  have 1: "onend True listening_state =
     listening_state\<lparr>recognizer_calls := recognizer_calls listening_state @ [RecStart]\<rparr>"
    by blast
  from onend_restart[of ?st False] m have 2: "onend False ?st = ?st" by blast
  from onend_restart[of ?lim False] x have 3: "onend False ?lim = ?lim" by blast
  from h m x show ?thesis by (simp add: 1 2 3 r rs rx)
qed

section \<open>Reset\<close>

lemma btnReset_click_eq:
  "btnReset_click stop_throws s =
     s\<lparr>manualStop := True, knHeard := [], enMeaning := [], myReplyEn := [], knReply := [],
       statusLine := [], errorLine := [],
       btnSpeakAgain_disabled := True, btnCopy_disabled := True,
       recognizer_calls := recognizer_calls s @ [RecStop]\<rparr>"
  by (simp add: btnReset_click_def clear_fields_def setStatus_def setError_def
        try_recognizer_call_def recognizer_call_def)

lemma btnStop_click_not_listening: "\<not> listening (btnStop_click stop_throws s)"
  by (simp add: btnStop_click_def setStatus_def setListening_def
        try_recognizer_call_def recognizer_call_def)


text \<open>
  Claim C6, at the state the code gets wrong. Reset clicked while listening sets
  \<open>manualStop\<close> and calls \<open>recognition.stop()\<close>, but \<open>listening\<close> stays set, Start stays
  disabled and Stop enabled: the handler never calls \<open>setListening(false)\<close>, which the
  Stop handler does.
\<close>

theorem reset_while_listening:
  "listening listening_state
   \<and> listening (btnReset_click False listening_state)
   \<and> btnStart_disabled (btnReset_click False listening_state)
   \<and> \<not> btnStop_disabled (btnReset_click False listening_state)
   \<and> manualStop (btnReset_click False listening_state)
   \<and> recognizer_calls (btnReset_click False listening_state) = [RecStart, RecStop]
   \<and> \<not> listening (btnStop_click False listening_state)"
  by code_simp


section \<open>A translation that settles after Reset\<close>

text \<open>
  Claim C7, as the code has it. The step that runs when the awaited translation has
  settled stores a successful result in its field whatever happened since the request was
  issued: after a Reset that cleared the field, \<open>knReply\<close> holds the late Kannada text
  and the Speak and Copy buttons are enabled, and \<open>enMeaning\<close> holds the late English
  text. A failed translation leaves the field cleared; after the response the field is
  empty exactly when the translation failed or the text it stores is itself empty.
\<close>

theorem late_translation_populates:
  "(btnTranslateToKn_click s = (s1, Some req) \<longrightarrow>
      knReply (btnReset_click t s1) = []
      \<and> knReply (btnTranslateToKn_resume (Inr kn) (btnReset_click t s1)) = kn
      \<and> \<not> btnSpeakAgain_disabled (btnTranslateToKn_resume (Inr kn) (btnReset_click t s1))
      \<and> \<not> btnCopy_disabled (btnTranslateToKn_resume (Inr kn) (btnReset_click t s1))
      \<and> knReply (btnTranslateToKn_resume (Inl ex) (btnReset_click t s1)) = []
      \<and> (knReply (btnTranslateToKn_resume r (btnReset_click t s1)) = []
           \<longleftrightarrow> (case r of Inl _ \<Rightarrow> True | Inr tx \<Rightarrow> tx = [])))
   \<and> (btnTranslateToEn_click s = (s2, Some req2) \<longrightarrow>
      enMeaning (btnReset_click t s2) = []
      \<and> enMeaning (btnTranslateToEn_resume (Inr en) (btnReset_click t s2)) = en
      \<and> enMeaning (btnTranslateToEn_resume (Inl ex) (btnReset_click t s2)) = []
      \<and> (enMeaning (btnTranslateToEn_resume r (btnReset_click t s2)) = []
           \<longleftrightarrow> (case r of Inl _ \<Rightarrow> True | Inr tx \<Rightarrow> tx = [])))
   \<and> knReply (btnTranslateToKn_resume (Inr kn) s3) = kn
   \<and> enMeaning (btnTranslateToEn_resume (Inr en) s3) = en"
  by (cases r)
     (simp_all add: btnReset_click_eq btnTranslateToKn_resume_def btnTranslateToEn_resume_def
        setStatus_def setError_def)

theorem late_translation_populates_witness:
  "snd (btnTranslateToKn_click reply_typed) =
      Some \<lparr>q = lit ''thanks'', source = lit ''en'', target = lit ''kn''\<rparr>
   \<and> knReply (btnReset_click False (fst (btnTranslateToKn_click reply_typed))) = []
   \<and> knReply (btnTranslateToKn_resume (Inr (lit ''dhanyavada''))
        (btnReset_click False (fst (btnTranslateToKn_click reply_typed)))) = lit ''dhanyavada''
   \<and> knReply (btnTranslateToKn_resume (Inl Thrown)
        (btnReset_click False (fst (btnTranslateToKn_click reply_typed)))) = []
   \<and> knReply (btnTranslateToKn_resume (Inr [])
        (btnReset_click False (fst (btnTranslateToKn_click reply_typed)))) = []
   \<and> \<not> btnSpeakAgain_disabled (btnTranslateToKn_resume (Inr [])
        (btnReset_click False (fst (btnTranslateToKn_click reply_typed))))
   \<and> snd (btnTranslateToEn_click (fresh_state\<lparr>knHeard := lit ''namaskara''\<rparr>)) =
      Some \<lparr>q = lit ''namaskara'', source = lit ''kn'', target = lit ''en''\<rparr>
   \<and> enMeaning (btnTranslateToEn_resume (Inr (lit ''hello''))
        (btnReset_click False (fst (btnTranslateToEn_click (fresh_state\<lparr>knHeard := lit ''namaskara''\<rparr>)))))
       = lit ''hello''"
proof -
  let ?rk = "\<lparr>q = lit ''thanks'', source = lit ''en'', target = lit ''kn''\<rparr>"
  let ?re = "\<lparr>q = lit ''namaskara'', source = lit ''kn'', target = lit ''en''\<rparr>"
  let ?h = "fresh_state\<lparr>knHeard := lit ''namaskara''\<rparr>"
  let ?s1 = "fst (btnTranslateToKn_click reply_typed)"
  have k: "snd (btnTranslateToKn_click reply_typed) = Some ?rk" by code_simp
  have e: "snd (btnTranslateToEn_click ?h) = Some ?re" by code_simp
  from k have k': "btnTranslateToKn_click reply_typed = (?s1, Some ?rk)"
    by (metis prod.collapse)
  from e have e': "btnTranslateToEn_click ?h = (fst (btnTranslateToEn_click ?h), Some ?re)"
    by (metis prod.collapse)
  from late_translation_populates[where s = reply_typed and ?s1.0 = ?s1 and req = ?rk
      and t = False and kn = "lit ''dhanyavada''" and ex = Thrown and r = "Inl Thrown"] k'
  have 1: "knReply (btnReset_click False ?s1) = []"
    and 2: "knReply (btnTranslateToKn_resume (Inr (lit ''dhanyavada''))
        (btnReset_click False ?s1)) = lit ''dhanyavada''"
    and 4: "knReply (btnTranslateToKn_resume (Inl Thrown) (btnReset_click False ?s1)) = []"
    by blast+
  from late_translation_populates[where s = reply_typed and ?s1.0 = ?s1 and req = ?rk
      and t = False and kn = "[]" and r = "Inr []"] k'
  have 5: "knReply (btnTranslateToKn_resume (Inr []) (btnReset_click False ?s1)) = []"
    and 6: "\<not> btnSpeakAgain_disabled (btnTranslateToKn_resume (Inr []) (btnReset_click False ?s1))"
    by blast+
  from late_translation_populates[where s = ?h
      and ?s2.0 = "fst (btnTranslateToEn_click ?h)" and ?req2.0 = ?re
      and t = False and en = "lit ''hello''"] e'
  have 3: "enMeaning (btnTranslateToEn_resume (Inr (lit ''hello''))
        (btnReset_click False (fst (btnTranslateToEn_click ?h)))) = lit ''hello''"
    by blast
  from k 1 2 4 5 6 e 3 show ?thesis by (intro conjI)
qed

text \<open>
  The claim as stated fails: the request is issued, Reset clears \<open>knReply\<close>, and the
  response that arrives afterwards fills it again.
\<close>

theorem late_translation_counterexample:
  "snd (btnTranslateToKn_click reply_typed) \<noteq> None
   \<and> knReply (btnReset_click False (fst (btnTranslateToKn_click reply_typed))) = []
   \<and> knReply (btnTranslateToKn_resume (Inr (lit ''dhanyavada''))
        (btnReset_click False (fst (btnTranslateToKn_click reply_typed)))) \<noteq> []"
  by code_simp


section \<open>Start when the recognizer does not start\<close>

text \<open>
  Claim C10. When Start is clicked, speech recognition is supported and
  \<open>recognition.start()\<close> throws, \<open>listening\<close> is left as it was (false, for a session
  that was not listening), but \<open>manualStop\<close> and \<open>reachedMax\<close> are false and the four
  text fields are empty: text captured or translated before is lost, and the state is
  not the state before the click.
\<close>

theorem failed_start_clears:
  "listening (btnStart_click True True s) = listening s
   \<and> manualStop (btnStart_click True True s) = False
   \<and> reachedMax (btnStart_click True True s) = False
   \<and> knHeard (btnStart_click True True s) = []
   \<and> enMeaning (btnStart_click True True s) = []
   \<and> myReplyEn (btnStart_click True True s) = []
   \<and> knReply (btnStart_click True True s) = []
   \<and> recognizer_calls (btnStart_click True True s) = recognizer_calls s @ [RecStart]
   \<and> errorLine (btnStart_click True True s) =
       lit ''Could not start mic. Allow mic permission and retry.''
   \<and> (knHeard s \<noteq> [] \<or> enMeaning s \<noteq> [] \<or> myReplyEn s \<noteq> [] \<or> knReply s \<noteq> []
        \<longrightarrow> btnStart_click True True s \<noteq> s)"
proof -
  have eq: "btnStart_click True True s =
     s\<lparr>manualStop := False, reachedMax := False,
       knHeard := [], enMeaning := [], myReplyEn := [], knReply := [],
       errorLine := lit ''Could not start mic. Allow mic permission and retry.'',
       btnSpeakAgain_disabled := True, btnCopy_disabled := True,
       recognizer_calls := recognizer_calls s @ [RecStart]\<rparr>"
    by (simp add: btnStart_click_def Let_def clear_fields_def setError_def recognizer_call_def)
  have ne: "btnStart_click True True s \<noteq> s"
    if "knHeard s \<noteq> [] \<or> enMeaning s \<noteq> [] \<or> myReplyEn s \<noteq> [] \<or> knReply s \<noteq> []"
  proof
    assume "btnStart_click True True s = s"
    then have "knHeard s = knHeard (btnStart_click True True s)"
      "enMeaning s = enMeaning (btnStart_click True True s)"
      "myReplyEn s = myReplyEn (btnStart_click True True s)"
      "knReply s = knReply (btnStart_click True True s)" by simp_all
    with that show False by (simp add: eq)
  qed
  from ne show ?thesis by (simp add: eq)
qed

theorem failed_start_clears_witness:
  "\<not> listening stopped_with_text
   \<and> knHeard stopped_with_text = lit ''namaskara.''
   \<and> enMeaning stopped_with_text = lit ''hello.''
   \<and> manualStop stopped_with_text
   \<and> \<not> listening (btnStart_click True True stopped_with_text)
   \<and> knHeard (btnStart_click True True stopped_with_text) = []
   \<and> enMeaning (btnStart_click True True stopped_with_text) = []
   \<and> \<not> manualStop (btnStart_click True True stopped_with_text)
   \<and> btnStart_click True True stopped_with_text \<noteq> stopped_with_text"
proof -
  have a: "\<not> listening stopped_with_text" by code_simp
  have b: "knHeard stopped_with_text = lit ''namaskara.''" by code_simp
  have c: "enMeaning stopped_with_text = lit ''hello.''" by code_simp
  have d: "manualStop stopped_with_text" by code_simp
  have n: "knHeard stopped_with_text \<noteq> []" by code_simp
  from failed_start_clears[of stopped_with_text] n a
  have "\<not> listening (btnStart_click True True stopped_with_text)
   \<and> knHeard (btnStart_click True True stopped_with_text) = []
   \<and> enMeaning (btnStart_click True True stopped_with_text) = []
   \<and> \<not> manualStop (btnStart_click True True stopped_with_text)
   \<and> btnStart_click True True stopped_with_text \<noteq> stopped_with_text"
    by blast
  with a b c d show ?thesis by blast
qed

section \<open>The translation cascade\<close>

lemma translateViaLibre_Inr:
  "translateViaLibre net req = Inr tx \<longleftrightarrow> libre_accepts net req tx"
  by (auto simp: translateViaLibre_def libre_accepts_def split: option.splits)

lemma translateViaMyMemory_Inr:
  "translateViaMyMemory net req = Inr tx \<longleftrightarrow> mymemory_accepts net req tx"
  by (auto simp: translateViaMyMemory_def mymemory_accepts_def split: option.splits)

lemma translate_primary:
  assumes "libre_accepts net req tx"
  shows "translate net req = ([(LibreTranslate, req)], Inr tx)"
proof -
  from assms have "translateViaLibre net req = Inr tx"
    by (simp add: translateViaLibre_Inr)
  then show ?thesis by (simp add: translate_def)
qed

lemma translate_fallback:
  assumes "\<forall>tx. \<not> libre_accepts net req tx"
  shows "translate net req =
    ([(LibreTranslate, req), (MyMemory, req)], translateViaMyMemory net req)"
proof -
  from assms have "\<forall>tx. translateViaLibre net req \<noteq> Inr tx"
    by (simp add: translateViaLibre_Inr)
  then obtain e where "translateViaLibre net req = Inl e"
    by (cases "translateViaLibre net req") auto
  then show ?thesis by (simp add: translate_def)
qed

lemma libre_rejects_iff:
  "(\<forall>tx. \<not> libre_accepts net req tx) \<longleftrightarrow>
     net LibreTranslate req = None
     \<or> (\<exists>res. net LibreTranslate req = Some res \<and>
          (\<not> ok res \<or> body res = None
           \<or> (\<exists>data. body res = Some data \<and>
                (\<not> truthy data \<or> get_member (lit ''translatedText'') data = None
                 \<or> (\<exists>v. get_member (lit ''translatedText'') data = Some v \<and> \<not> truthy v)))))"
proof (cases "net LibreTranslate req")
  case None
  then show ?thesis by (simp add: libre_accepts_def)
next
  case n: (Some res)
  show ?thesis
  proof (cases "body res")
    case None
    with n show ?thesis by (simp add: libre_accepts_def)
  next
    case b: (Some data)
    show ?thesis
    proof (cases "get_member (lit ''translatedText'') data")
      case None
      with n b show ?thesis by (simp add: libre_accepts_def)
    next
      case (Some v)
      with n b show ?thesis by (auto simp: libre_accepts_def)
    qed
  qed
qed


lemma translate_cascade_core:
  "(libre_accepts net req tx \<longrightarrow> translate net req = ([(LibreTranslate, req)], Inr tx))
   \<and> ((\<forall>tx. \<not> libre_accepts net req tx) \<longrightarrow>
        translate net req =
          ([(LibreTranslate, req), (MyMemory, req)], translateViaMyMemory net req))
   \<and> ((\<forall>tx. \<not> libre_accepts net req tx) \<and> mymemory_accepts net req tx' \<longrightarrow>
        snd (translate net req) = Inr tx')
   \<and> ((\<exists>e. snd (translate net req) = Inl e) \<longleftrightarrow>
        (\<forall>tx. \<not> libre_accepts net req tx) \<and> (\<forall>tx. \<not> mymemory_accepts net req tx))
   \<and> ((\<forall>tx. \<not> libre_accepts net req tx) \<and> (\<forall>tx. \<not> mymemory_accepts net req tx) \<longrightarrow>
        (\<forall>tx. snd (translate net req) \<noteq> Inr tx))
   \<and> ((\<forall>tx. \<not> libre_accepts net req tx) \<longleftrightarrow>
        net LibreTranslate req = None
        \<or> (\<exists>res. net LibreTranslate req = Some res \<and>
             (\<not> ok res \<or> body res = None
              \<or> (\<exists>data. body res = Some data \<and>
                   (\<not> truthy data \<or> get_member (lit ''translatedText'') data = None
                    \<or> (\<exists>v. get_member (lit ''translatedText'') data = Some v
                          \<and> \<not> truthy v))))))"
proof -
  have fb: "snd (translate net req) = translateViaMyMemory net req"
    if "\<forall>tx. \<not> libre_accepts net req tx"
    using translate_fallback[OF that] by simp
  have c3: "snd (translate net req) = Inr tx'"
    if "\<forall>tx. \<not> libre_accepts net req tx" and "mymemory_accepts net req tx'"
    using fb[OF that(1)] that(2) by (simp add: translateViaMyMemory_Inr)
  have c4: "(\<exists>e. snd (translate net req) = Inl e) \<longleftrightarrow>
        (\<forall>tx. \<not> libre_accepts net req tx) \<and> (\<forall>tx. \<not> mymemory_accepts net req tx)"
  proof (cases "\<forall>tx. \<not> libre_accepts net req tx")
    case True
    have "(\<exists>e. translateViaMyMemory net req = Inl e) \<longleftrightarrow>
        (\<forall>tx. translateViaMyMemory net req \<noteq> Inr tx)"
      by (cases "translateViaMyMemory net req") auto
    with True fb[OF True] show ?thesis by (simp add: translateViaMyMemory_Inr)
  next
    case False
    then obtain tx where "libre_accepts net req tx" by blast
    from translate_primary[OF this] False show ?thesis by auto
  qed
  have c5: "\<forall>tx. snd (translate net req) \<noteq> Inr tx"
    if "(\<forall>tx. \<not> libre_accepts net req tx) \<and> (\<forall>tx. \<not> mymemory_accepts net req tx)"
    using that c4 by auto
  from translate_primary translate_fallback c3 c4 c5 libre_rejects_iff[of net req]
  show ?thesis by blast
qed

lemma truthy_iff:
  "truthy v \<longleftrightarrow> v \<noteq> JNull \<and> v \<noteq> JBool False \<and> v \<noteq> JNum 0 \<and> v \<noteq> JStr []"
  by (cases v) auto

lemma libre_accepts_truthy: "libre_accepts net req tx \<Longrightarrow> truthy tx"
  by (auto simp: libre_accepts_def split: option.splits)

lemma mymemory_accepts_truthy: "mymemory_accepts net req tx \<Longrightarrow> truthy tx"
  by (auto simp: mymemory_accepts_def split: option.splits)

text \<open>
  Claim C3, as the code has it. LibreTranslate's answer is accepted when the fetch
  resolves with a success status and a JSON body whose \<open>translatedText\<close> is truthy: a
  string that is not empty, but also \<open>true\<close>, a number other than zero, an array or an
  object, since the code does not test that the member is text. \<open>translate\<close> then
  returns that value and calls nothing else. In every other case (the fetch rejects, the
  status is not a success, the body is not JSON, the member is missing or falsy)
  \<open>translateViaMyMemory\<close> is called with the same request, and \<open>translate\<close> returns
  what it returns or throws what it throws. \<open>translate\<close> throws exactly when neither
  provider gives an answer accepted in this sense, and then returns no text; whatever
  it returns is truthy.
\<close>

theorem translate_cascade:
  "(libre_accepts net req tx \<longrightarrow> translate net req = ([(LibreTranslate, req)], Inr tx))
   \<and> ((\<forall>tx. \<not> libre_accepts net req tx) \<longrightarrow>
        translate net req =
          ([(LibreTranslate, req), (MyMemory, req)], translateViaMyMemory net req))
   \<and> ((\<forall>tx. \<not> libre_accepts net req tx) \<and> mymemory_accepts net req tx' \<longrightarrow>
        snd (translate net req) = Inr tx')
   \<and> ((\<exists>e. snd (translate net req) = Inl e) \<longleftrightarrow>
        (\<forall>tx. \<not> libre_accepts net req tx) \<and> (\<forall>tx. \<not> mymemory_accepts net req tx))
   \<and> ((\<forall>tx. \<not> libre_accepts net req tx) \<and> (\<forall>tx. \<not> mymemory_accepts net req tx) \<longrightarrow>
        (\<forall>tx. snd (translate net req) \<noteq> Inr tx))
   \<and> ((\<forall>tx. \<not> libre_accepts net req tx) \<longleftrightarrow>
        net LibreTranslate req = None
        \<or> (\<exists>res. net LibreTranslate req = Some res \<and>
             (\<not> ok res \<or> body res = None
              \<or> (\<exists>data. body res = Some data \<and>
                   (\<not> truthy data \<or> get_member (lit ''translatedText'') data = None
                    \<or> (\<exists>v. get_member (lit ''translatedText'') data = Some v
                          \<and> \<not> truthy v))))))
   \<and> (snd (translate net req) = Inr w \<longrightarrow> truthy w)
   \<and> (truthy w \<longleftrightarrow> w \<noteq> JNull \<and> w \<noteq> JBool False \<and> w \<noteq> JNum 0 \<and> w \<noteq> JStr [])"
proof -
  have t: "truthy w" if "snd (translate net req) = Inr w"
  proof (cases "\<forall>tx. \<not> libre_accepts net req tx")
    case True
    from translate_fallback[OF True] that have "translateViaMyMemory net req = Inr w" by simp
    then show ?thesis by (simp add: translateViaMyMemory_Inr mymemory_accepts_truthy)
  next
    case False
    then obtain tx where a: "libre_accepts net req tx" by blast
    from translate_primary[OF a] that have "tx = w" by simp
    with a show ?thesis by (simp add: libre_accepts_truthy)
  qed
  from translate_cascade_core[of net req tx tx'] t truthy_iff[of w] show ?thesis by blast
qed

theorem translate_cascade_witness:
  "libre_accepts (net_of (Some libre_good) None) reply_request (JStr (lit ''namaskara''))
   \<and> translate (net_of (Some libre_good) None) reply_request =
       ([(LibreTranslate, reply_request)], Inr (JStr (lit ''namaskara'')))
   \<and> truthy (JStr (lit ''namaskara''))
   \<and> (\<forall>tx. \<not> libre_accepts (net_of (Some server_error) (Some mymemory_good)) reply_request tx)
   \<and> mymemory_accepts (net_of (Some server_error) (Some mymemory_good)) reply_request
        (JStr (lit ''halo''))
   \<and> translate (net_of (Some server_error) (Some mymemory_good)) reply_request =
       ([(LibreTranslate, reply_request), (MyMemory, reply_request)], Inr (JStr (lit ''halo'')))
   \<and> (\<forall>tx. \<not> libre_accepts (net_of None (Some mymemory_empty)) reply_request tx)
   \<and> (\<forall>tx. \<not> mymemory_accepts (net_of None (Some mymemory_empty)) reply_request tx)
   \<and> (\<exists>e. snd (translate (net_of None (Some mymemory_empty)) reply_request) = Inl e)
   \<and> snd (translate (net_of None (Some mymemory_good)) (reply_request\<lparr>q := [0xD83D]\<rparr>))
       = Inl URIError"
proof -
  let ?n1 = "net_of (Some libre_good) None"
  let ?n2 = "net_of (Some server_error) (Some mymemory_good)"
  let ?n3 = "net_of None (Some mymemory_empty)"
  have a1: "libre_accepts ?n1 reply_request (JStr (lit ''namaskara''))" by code_simp
  have a2: "\<forall>tx. \<not> libre_accepts ?n2 reply_request tx"
    by (simp add: libre_accepts_def net_of_def server_error_def ok_def)
  have b2: "mymemory_accepts ?n2 reply_request (JStr (lit ''halo''))" by code_simp
  from translate_cascade[of ?n2 reply_request _ "JStr (lit ''halo'')"] a2 b2
  have m2: "snd (translate ?n2 reply_request) = Inr (JStr (lit ''halo''))" by blast
  have a3: "\<forall>tx. \<not> libre_accepts ?n3 reply_request tx"
    by (simp add: libre_accepts_def net_of_def)
  have b3: "\<forall>tx. \<not> mymemory_accepts ?n3 reply_request tx"
  proof -
    have "best_of (JObj [(lit ''responseData'', JObj [(lit ''translatedText'', JStr [])])])
          = Some (JStr [])" by code_simp
    then show ?thesis
      by (auto simp: mymemory_accepts_def net_of_def mymemory_empty_def)
  qed
  from translate_cascade[of ?n1 reply_request "JStr (lit ''namaskara'')"] a1
  have 1: "translate ?n1 reply_request =
       ([(LibreTranslate, reply_request)], Inr (JStr (lit ''namaskara'')))" by blast
  from translate_cascade[of ?n2 reply_request] a2
  have "translate ?n2 reply_request =
       ([(LibreTranslate, reply_request), (MyMemory, reply_request)],
        translateViaMyMemory ?n2 reply_request)" by blast
  with m2 have 2: "translate ?n2 reply_request =
       ([(LibreTranslate, reply_request), (MyMemory, reply_request)], Inr (JStr (lit ''halo'')))"
    by (metis snd_conv)
  from translate_cascade[of ?n3 reply_request] a3 b3
  have 3: "\<exists>e. snd (translate ?n3 reply_request) = Inl e" by blast
  have 4: "snd (translate (net_of None (Some mymemory_good)) (reply_request\<lparr>q := [0xD83D]\<rparr>))
       = Inl URIError" by code_simp
  from 1 have "snd (translate ?n1 reply_request) = Inr (JStr (lit ''namaskara''))"
    by (simp only: snd_conv)
  with translate_cascade[of ?n1 reply_request _ _ "JStr (lit ''namaskara'')"]
  have 5: "truthy (JStr (lit ''namaskara''))" by blast
  from a1 1 5 a2 b2 2 a3 b3 3 4 show ?thesis by (intro conjI)
qed

text \<open>
  The claim as stated fails: a \<open>translatedText\<close> that is \<open>true\<close>, or an empty array, is
  not translated text, yet \<open>translate\<close> returns it without calling MyMemory, and does
  not throw although MyMemory would have failed as well.
\<close>

theorem truthy_field_counterexample:
  "translate (net_of (Some libre_flag) (Some mymemory_good)) reply_request =
     ([(LibreTranslate, reply_request)], Inr (JBool True))
   \<and> translate (net_of (Some libre_list) None) reply_request =
     ([(LibreTranslate, reply_request)], Inr (JArr []))
   \<and> translateViaMyMemory (net_of (Some libre_list) None) reply_request = Inl FetchRejected"
  by code_simp

section \<open>The voice picked for playback\<close>

lemma startsWith_iff_prefix: "startsWith s p \<longleftrightarrow> prefix p s"
proof
  assume "startsWith s p"
  then have "s = p @ drop (length p) s"
    unfolding startsWith_def by (metis append_take_drop_id)
  then show "prefix p s" by (metis prefixI)
next
  assume "prefix p s"
  then show "startsWith s p" by (auto simp: startsWith_def prefix_def)
qed

lemma includes_js_iff: "includes_js s p \<longleftrightarrow> (\<exists>a b. s = a @ p @ b)"
proof (induction s)
  case Nil
  then show ?case by simp
next
  case (Cons c s)
  show ?case
  proof
    assume "includes_js (c # s) p"
    then consider "startsWith (c # s) p" | "includes_js s p" by auto
    then show "\<exists>a b. c # s = a @ p @ b"
    proof cases
      case 1
      then obtain b where "c # s = p @ b" by (auto simp: startsWith_iff_prefix prefix_def)
      then have "c # s = [] @ p @ b" by simp
      then show ?thesis by blast
    next
      case 2
      with Cons.IH obtain a b where "s = a @ p @ b" by blast
      then have "c # s = (c # a) @ p @ b" by simp
      then show ?thesis by blast
    qed
  next
    assume "\<exists>a b. c # s = a @ p @ b"
    then obtain a b where ab: "c # s = a @ p @ b" by blast
    show "includes_js (c # s) p"
    proof (cases a)
      case Nil
      with ab have "prefix p (c # s)" by (simp add: prefix_def)
      then show ?thesis by (simp add: startsWith_iff_prefix)
    next
      case (Cons x a')
      with ab have "s = a' @ p @ b" by simp
      with Cons.IH have "includes_js s p" by blast
      then show ?thesis by simp
    qed
  qed
qed

lemma find_first_voice: "find P voices = Some v \<longleftrightarrow> first_voice_with P voices v"
  unfolding first_voice_with_def find_Some_iff by metis

lemma find_exists:
  assumes "\<exists>v \<in> set voices. P v"
  shows "\<exists>v. find P voices = Some v \<and> first_voice_with P voices v"
proof -
  from assms have "find P voices \<noteq> None" by (auto simp: find_None_iff)
  then obtain v where "find P voices = Some v" by blast
  then show ?thesis by (auto simp: find_first_voice)
qed

lemma pickKannadaVoice_eq:
  "pickKannadaVoice lc voices =
     (case find (tag_is_kn_in lc) voices of
        Some v \<Rightarrow> Some v
      | None \<Rightarrow>
          (case find (tag_starts_kn lc) voices of
             Some v \<Rightarrow> Some v
           | None \<Rightarrow>
               (case find (tag_includes_en_in lc) voices of
                  Some v \<Rightarrow> Some v
                | None \<Rightarrow> (case voices of [] \<Rightarrow> None | v # _ \<Rightarrow> Some v))))"
proof -
  have a: "tag_is_kn_in lc = (\<lambda>v. lc (lang_or_empty v) = lit ''kn-in'')"
    by (rule ext) (simp add: tag_is_kn_in_def)
  have b: "tag_starts_kn lc = (\<lambda>v. startsWith (lc (lang_or_empty v)) (lit ''kn''))"
    by (rule ext) (simp add: tag_starts_kn_def)
  have c: "tag_includes_en_in lc = (\<lambda>v. includes_js (lc (lang_or_empty v)) (lit ''en-in''))"
    by (rule ext) (simp add: tag_includes_en_in_def)
  show ?thesis unfolding a b c pickKannadaVoice_def Let_def ..
qed


text \<open>
  Claim C9, as the code has it. \<open>pickKannadaVoice\<close> returns the first voice whose
  lowercased tag is \<open>kn-in\<close>; if there is none, the first whose lowercased tag starts
  with \<open>kn\<close>; if there is none, the first whose lowercased tag contains \<open>en-in\<close>
  anywhere; if there is none, the first voice of the list; and \<open>null\<close> for the empty
  list.
\<close>

theorem pickKannadaVoice_policy:
  "((\<exists>v \<in> set voices. tag_is_kn_in lc v) \<longrightarrow>
      (\<exists>v. pickKannadaVoice lc voices = Some v \<and> first_voice_with (tag_is_kn_in lc) voices v))
   \<and> ((\<forall>v \<in> set voices. \<not> tag_is_kn_in lc v) \<and> (\<exists>v \<in> set voices. tag_starts_kn lc v) \<longrightarrow>
      (\<exists>v. pickKannadaVoice lc voices = Some v \<and> first_voice_with (tag_starts_kn lc) voices v))
   \<and> ((\<forall>v \<in> set voices. \<not> tag_is_kn_in lc v \<and> \<not> tag_starts_kn lc v)
        \<and> (\<exists>v \<in> set voices. tag_includes_en_in lc v) \<longrightarrow>
      (\<exists>v. pickKannadaVoice lc voices = Some v
           \<and> first_voice_with (tag_includes_en_in lc) voices v))
   \<and> ((\<forall>v \<in> set voices. \<not> tag_is_kn_in lc v \<and> \<not> tag_starts_kn lc v
                          \<and> \<not> tag_includes_en_in lc v) \<and> voices \<noteq> [] \<longrightarrow>
      pickKannadaVoice lc voices = Some (hd voices))
   \<and> (voices = [] \<longrightarrow> pickKannadaVoice lc voices = None)
   \<and> (tag_starts_kn lc w \<longleftrightarrow> prefix (lit ''kn'') (lc (lang_or_empty w)))
   \<and> (tag_includes_en_in lc w \<longleftrightarrow> (\<exists>a b. lc (lang_or_empty w) = a @ lit ''en-in'' @ b))"
proof -
  have 1: "\<exists>v. pickKannadaVoice lc voices = Some v \<and> first_voice_with (tag_is_kn_in lc) voices v"
    if "\<exists>v \<in> set voices. tag_is_kn_in lc v"
    using find_exists[OF that] by (auto simp: pickKannadaVoice_eq)
  have 2: "\<exists>v. pickKannadaVoice lc voices = Some v \<and> first_voice_with (tag_starts_kn lc) voices v"
    if "\<forall>v \<in> set voices. \<not> tag_is_kn_in lc v" and "\<exists>v \<in> set voices. tag_starts_kn lc v"
  proof -
    from that(1) have "find (tag_is_kn_in lc) voices = None" by (simp add: find_None_iff)
    with find_exists[OF that(2)] show ?thesis by (auto simp: pickKannadaVoice_eq)
  qed
  have 3: "\<exists>v. pickKannadaVoice lc voices = Some v
           \<and> first_voice_with (tag_includes_en_in lc) voices v"
    if "\<forall>v \<in> set voices. \<not> tag_is_kn_in lc v \<and> \<not> tag_starts_kn lc v"
      and "\<exists>v \<in> set voices. tag_includes_en_in lc v"
  proof -
    from that(1) have "find (tag_is_kn_in lc) voices = None" "find (tag_starts_kn lc) voices = None"
      by (simp_all add: find_None_iff)
    with find_exists[OF that(2)] show ?thesis by (auto simp: pickKannadaVoice_eq)
  qed
  have n: "find (tag_is_kn_in lc) voices = None \<and> find (tag_starts_kn lc) voices = None
      \<and> find (tag_includes_en_in lc) voices = None"
    if "\<forall>v \<in> set voices. \<not> tag_is_kn_in lc v \<and> \<not> tag_starts_kn lc v
                          \<and> \<not> tag_includes_en_in lc v"
    using that by (simp add: find_None_iff)
  have 4: "pickKannadaVoice lc voices = Some (hd voices)"
    if "\<forall>v \<in> set voices. \<not> tag_is_kn_in lc v \<and> \<not> tag_starts_kn lc v
                          \<and> \<not> tag_includes_en_in lc v" and "voices \<noteq> []"
    using n[OF that(1)] that(2) by (cases voices) (simp_all add: pickKannadaVoice_eq)
  have 5: "pickKannadaVoice lc voices = None" if "voices = []"
    using that by (simp add: pickKannadaVoice_eq)
  have 6: "tag_starts_kn lc w \<longleftrightarrow> prefix (lit ''kn'') (lc (lang_or_empty w))"
    by (simp add: tag_starts_kn_def startsWith_iff_prefix)
  have 7: "tag_includes_en_in lc w \<longleftrightarrow> (\<exists>a b. lc (lang_or_empty w) = a @ lit ''en-in'' @ b)"
    by (simp add: tag_includes_en_in_def includes_js_iff)
  from 1 2 3 4 5 6 7 show ?thesis by blast
qed


theorem pickKannadaVoice_policy_witness:
  "tag_is_kn_in ascii_toLowerCase (voice_of ''Kn upper'' ''KN-in'')
   \<and> pickKannadaVoice ascii_toLowerCase catalogue = Some (voice_of ''Kn upper'' ''KN-in'')
   \<and> first_voice_with (tag_is_kn_in ascii_toLowerCase) catalogue (voice_of ''Kn upper'' ''KN-in'')
   \<and> pickKannadaVoice ascii_toLowerCase
        [voice_of ''Ravi'' ''en-IN'', voice_of ''Kn script'' ''Kn-Knda'', voice_of ''Kn short'' ''kn'']
       = Some (voice_of ''Kn script'' ''Kn-Knda'')
   \<and> pickKannadaVoice ascii_toLowerCase [voice_of ''Hindi'' ''hi-IN'', voice_of ''Ravi'' ''en-IN'']
       = Some (voice_of ''Ravi'' ''en-IN'')
   \<and> pickKannadaVoice ascii_toLowerCase [voice_of ''US'' ''en-US'', voice_of ''Hindi'' ''hi-IN'']
       = Some (voice_of ''US'' ''en-US'')
   \<and> pickKannadaVoice ascii_toLowerCase [] = None"
proof -
  let ?k = "voice_of ''Kn upper'' ''KN-in''"
  let ?vb = "[voice_of ''Ravi'' ''en-IN'', voice_of ''Kn script'' ''Kn-Knda'', voice_of ''Kn short'' ''kn'']"
  let ?vc = "[voice_of ''Hindi'' ''hi-IN'', voice_of ''Ravi'' ''en-IN'']"
  let ?vs = "[voice_of ''US'' ''en-US'', voice_of ''Hindi'' ''hi-IN'']"
  have a: "tag_is_kn_in ascii_toLowerCase ?k" by code_simp
  have m: "?k \<in> set catalogue" by (simp add: catalogue_def)
  have p: "pickKannadaVoice ascii_toLowerCase catalogue = Some ?k" by code_simp
  from pickKannadaVoice_policy[of catalogue ascii_toLowerCase] a m
  obtain v where "pickKannadaVoice ascii_toLowerCase catalogue = Some v"
    and "first_voice_with (tag_is_kn_in ascii_toLowerCase) catalogue v"
    by blast
  with p have f: "first_voice_with (tag_is_kn_in ascii_toLowerCase) catalogue ?k" by simp
  have b1: "\<forall>v \<in> set ?vb. \<not> tag_is_kn_in ascii_toLowerCase v" by code_simp
  have b2: "\<exists>v \<in> set ?vb. tag_starts_kn ascii_toLowerCase v" by code_simp
  have b3: "first_voice_with (tag_starts_kn ascii_toLowerCase) ?vb w
             \<longleftrightarrow> w = voice_of ''Kn script'' ''Kn-Knda''" for w
  proof -
    have F: "find (tag_starts_kn ascii_toLowerCase) ?vb = Some (voice_of ''Kn script'' ''Kn-Knda'')"
      by code_simp
    show ?thesis unfolding find_first_voice[symmetric] F by blast
  qed
  from pickKannadaVoice_policy[of ?vb ascii_toLowerCase] b1 b2
  obtain w where pw: "pickKannadaVoice ascii_toLowerCase ?vb = Some w"
    and fw: "first_voice_with (tag_starts_kn ascii_toLowerCase) ?vb w" by blast
  from b3[THEN iffD1, OF fw] pw
  have b: "pickKannadaVoice ascii_toLowerCase ?vb = Some (voice_of ''Kn script'' ''Kn-Knda'')"
    by (simp only:)
  have c1: "\<forall>v \<in> set ?vc. \<not> tag_is_kn_in ascii_toLowerCase v \<and> \<not> tag_starts_kn ascii_toLowerCase v"
    by code_simp
  have c2: "\<exists>v \<in> set ?vc. tag_includes_en_in ascii_toLowerCase v" by code_simp
  have c3: "first_voice_with (tag_includes_en_in ascii_toLowerCase) ?vc w
             \<longleftrightarrow> w = voice_of ''Ravi'' ''en-IN''" for w
  proof -
    have F: "find (tag_includes_en_in ascii_toLowerCase) ?vc = Some (voice_of ''Ravi'' ''en-IN'')"
      by code_simp
    show ?thesis unfolding find_first_voice[symmetric] F by blast
  qed
  from pickKannadaVoice_policy[of ?vc ascii_toLowerCase] c1 c2
  obtain u where pu: "pickKannadaVoice ascii_toLowerCase ?vc = Some u"
    and fu: "first_voice_with (tag_includes_en_in ascii_toLowerCase) ?vc u" by blast
  from c3[THEN iffD1, OF fu] pu
  have c: "pickKannadaVoice ascii_toLowerCase ?vc = Some (voice_of ''Ravi'' ''en-IN'')"
    by (simp only:)
  have none: "\<forall>v \<in> set ?vs. \<not> tag_is_kn_in ascii_toLowerCase v
      \<and> \<not> tag_starts_kn ascii_toLowerCase v \<and> \<not> tag_includes_en_in ascii_toLowerCase v"
    by code_simp
  have ne: "?vs \<noteq> []" by simp
  from pickKannadaVoice_policy[of ?vs ascii_toLowerCase] none ne
  have "pickKannadaVoice ascii_toLowerCase ?vs = Some (hd ?vs)" by blast
  then have d: "pickKannadaVoice ascii_toLowerCase ?vs = Some (voice_of ''US'' ''en-US'')"
    by (simp only: list.sel)
  from pickKannadaVoice_policy[of "[]" ascii_toLowerCase]
  have e: "pickKannadaVoice ascii_toLowerCase [] = None" by blast
  from a p f b c d e show ?thesis by (intro conjI)
qed

text \<open>
  The claim as stated fails at the third step: the test is for a substring, so the voice
  tagged \<open>men-IN\<close>, which is not a voice for \<open>en-IN\<close>, is preferred to the first voice
  of the list.
\<close>

theorem substring_match_counterexample:
  "pickKannadaVoice ascii_toLowerCase [voice_of ''Hindi'' ''hi-IN'', voice_of ''Mende'' ''men-IN'']
     = Some (voice_of ''Mende'' ''men-IN'')
   \<and> ascii_toLowerCase (lang_or_empty (voice_of ''Mende'' ''men-IN'')) = lit ''men-in''
   \<and> lit ''men-in'' \<noteq> lit ''en-in''
   \<and> \<not> startsWith (lit ''men-in'') (lit ''en-in'')
   \<and> voice_of ''Mende'' ''men-IN'' \<noteq> voice_of ''Hindi'' ''hi-IN''"
  by code_simp

end
